theory Spec2Isabelle
  imports Main "HOL-Library.AList"
begin

section \<open>The widget manager and the widget wrapper of easyXDM.Widgets.js\<close>

text \<open>
  The file defines two constructors. \<open>easyXDM.WidgetManager\<close> keeps a table of
  initialized widgets (\<open>_widgets\<close>), a table of subscribers per topic
  (\<open>_subscribers\<close>) and a channel counter (\<open>_channelNr\<close>); \<open>easyXDM.Widget\<close>
  is the wrapper that runs inside a widget. Both talk to each other through
  \<open>easyXDM.Interface\<close>, which is not part of the file: every call made on an interface
  is recorded, in order, in a log carried by the state.

  Conventions of the embedding.
  \<^item> A JavaScript object used as a table is an association list of its own properties in
    insertion order, on top of the members it inherits from \<open>Object.prototype\<close>:
    \<open>k in obj\<close> is \<open>js_in k obj\<close>, a read \<open>obj[k]\<close> is \<open>get k obj\<close>,
    \<open>obj.hasOwnProperty(k)\<close> is \<open>has_key k obj\<close>, \<open>obj[k] = v\<close> is
    \<open>AList.update k v obj\<close> and \<open>delete obj[k]\<close> is \<open>AList.delete k obj\<close>.
  \<^item> A thrown exception is \<open>Inl (e, s)\<close>, with \<open>s\<close> the state the statements executed
    before the throw have left behind; a normal return is \<open>Inr s\<close>.
  \<^item> The counter \<open>_channelNr\<close> is a JavaScript number. It starts at 0 and is only ever
    incremented, so it is an integer between 0 and \<open>2^53\<close>, held exactly and printed in
    decimal; \<open>js_increment\<close> is the increment on that range.
  \<^item> The lines between \<open>#ifdef debug\<close> and \<open>#endif\<close> only trace and are left out.
\<close>

subsection \<open>Values\<close>

type_synonym url = string
type_synonym topic = string
type_synonym data = string
type_synonym listener = string
type_synonym handler = string
type_synonym settings = "(string \<times> string) list"

text \<open>The configuration object handed to \<open>new easyXDM.Interface\<close> by \<open>_setUpWidget\<close>;
  it stands for the interface (the channel to one widget) built from it.\<close>

record interface =
  channel :: string
  local :: string
  remote :: url
  container :: string

text \<open>\<open>widget.send\<close> is called with three arguments by \<open>_publish\<close> and with one object
  of three properties by \<open>broadcast\<close>.\<close>

datatype send_args = Args url topic data | Message url topic data

datatype effect =
    New_Interface interface
  | Remote_initialize interface settings
  | Remote_send interface send_args
  | Destroy interface
  | Listener_call listener url

datatype error = TypeError | Error string

record response =
  isInitialized :: bool
  subscriptions :: "topic list option"

record widgetConfig =
  widgetConfig_container :: "string option"

record manager_config =
  config_local :: string
  config_container :: "string option"
  config_widgetSettings :: settings
  config_listeners :: "(string \<times> listener) list option"

text \<open>The variables closed over by the methods of one \<open>WidgetManager\<close>, and the log of
  the calls it has made.\<close>

record manager =
  config :: manager_config
  hashUrl :: string
  channelNr :: nat
  widgets :: "(url \<times> interface) list"
  subscribers :: "(topic \<times> url list) list"
  widgetSettings :: settings
  defaultContainer :: string
  effects :: "effect list"

type_synonym result = "error \<times> manager + manager"

subsection \<open>JavaScript primitives\<close>

text \<open>The own properties of a table: \<open>obj.hasOwnProperty(k)\<close>.\<close>

definition has_key :: "string \<Rightarrow> (string \<times> 'v) list \<Rightarrow> bool" where
  "has_key k obj = (map_of obj k \<noteq> None)"

text \<open>The members an object literal inherits from \<open>Object.prototype\<close> in a current
  engine, those of the language standard and the legacy ones. All but \<open>__proto__\<close> are
  functions, listed with their \<open>length\<close>; \<open>__proto__\<close> reads as the prototype object,
  whose \<open>length\<close> is undefined, so that a loop \<open>while (i--)\<close> started from it runs no
  more often than one started from 0. None of them has a property \<open>push\<close>, \<open>send\<close>,
  \<open>destroy\<close> or an indexed element.\<close>

definition object_prototype :: "(string \<times> nat) list" where
  "object_prototype =
     [(''constructor'', 1), (''toString'', 0), (''toLocaleString'', 0), (''valueOf'', 0),
      (''hasOwnProperty'', 1), (''isPrototypeOf'', 1), (''propertyIsEnumerable'', 1),
      (''__defineGetter__'', 2), (''__defineSetter__'', 2), (''__lookupGetter__'', 1),
      (''__lookupSetter__'', 1), (''__proto__'', 0)]"

definition inherited :: "string \<Rightarrow> bool" where
  "inherited k = (k \<in> set (map fst object_prototype))"

text \<open>\<open>k in obj\<close> looks at the inherited members as well as the own properties.\<close>

definition js_in :: "string \<Rightarrow> (string \<times> 'v) list \<Rightarrow> bool" where
  "js_in k obj = (inherited k \<or> has_key k obj)"

text \<open>What a read \<open>obj[k]\<close> finds: an own property, else an inherited member (given by
  its \<open>length\<close>), else \<open>undefined\<close>.\<close>

datatype 'v property = Own 'v | Inherited nat | Undefined

definition get :: "string \<Rightarrow> (string \<times> 'v) list \<Rightarrow> 'v property" where
  "get k obj =
     (case map_of obj k of
        Some v \<Rightarrow> Own v
      | None \<Rightarrow> (case map_of object_prototype k of
                   Some n \<Rightarrow> Inherited n
                 | None \<Rightarrow> Undefined))"

text \<open>\<open>subscribers.length\<close> and \<open>subscribers[i]\<close> for what \<open>_subscribers[topic]\<close> has
  found; \<open>None\<close> is \<open>undefined\<close>. A value used as a property name is turned into a
  string first, \<open>undefined\<close> into the string \<open>undefined\<close>.\<close>

fun js_length :: "url list property \<Rightarrow> nat" where
  "js_length (Own subs) = length subs"
| "js_length (Inherited n) = n"
| "js_length Undefined = 0"

fun element :: "url list property \<Rightarrow> nat \<Rightarrow> url option" where
  "element (Own subs) i = (if i < length subs then Some (subs ! i) else None)"
| "element (Inherited n) i = None"
| "element Undefined i = None"

fun property_name :: "url option \<Rightarrow> string" where
  "property_name (Some u) = u"
| "property_name None = ''undefined''"

text \<open>\<open>n++\<close> on the counter: \<open>2^53 + 1\<close> is not a JavaScript number and rounds back to
  \<open>2^53\<close>, so from there on the counter stays where it is.\<close>

definition counter_limit :: nat where
  "counter_limit = 9007199254740992"

definition js_increment :: "nat \<Rightarrow> nat" where
  "js_increment n = (if int n < 9007199254740992 then n + 1 else n)"

text \<open>A method called on a table by name. The source calls \<open>hasOwnProperty\<close> (in
  \<open>removeWidget\<close>) and \<open>hasOwnPropert\<close> (in \<open>broadcast\<close>); no object has a method of
  the second name, and calling it throws a TypeError. An own property of the first name
  would hide the method; \<open>_subscribers\<close> never has one, since no topic that names an
  inherited member gets an array of its own.\<close>

definition object_method :: "string \<Rightarrow> ((string \<times> 'v) list \<Rightarrow> string \<Rightarrow> bool) option" where
  "object_method name =
     (if name = ''hasOwnProperty'' then Some (\<lambda>obj key. has_key key obj) else None)"

definition digit_char :: "nat \<Rightarrow> char" where
  "digit_char d = ''0123456789'' ! d"

text \<open>The decimal text of a number, as string concatenation produces it.\<close>

fun string_of_nat :: "nat \<Rightarrow> string" where
  "string_of_nat n =
     (if n < 10 then [digit_char n] else string_of_nat (n div 10) @ [digit_char (n mod 10)])"

declare string_of_nat.simps [simp del]

text \<open>Modelled from the spec: \<open>easyXDM.apply\<close> is defined outside this file; the
  extension fields of \<open>config.widgetSettings\<close> are merged into the settings object,
  a field of the same name being overwritten.\<close>

definition apply_settings :: "settings \<Rightarrow> settings \<Rightarrow> settings" where
  "apply_settings target source = fold (\<lambda>(k, v). AList.update k v) source target"

subsection \<open>easyXDM.WidgetManager\<close>

definition WidgetInitialized :: string where
  "WidgetInitialized = ''widgetinitialized''"

definition WidgetFailed :: string where
  "WidgetFailed = ''widgetfailed''"

text \<open>The constructor; \<open>href\<close> is \<open>location.href\<close> and \<open>body\<close> is \<open>document.body\<close>.\<close>

definition WidgetManager :: "string \<Rightarrow> string \<Rightarrow> manager_config \<Rightarrow> manager" where
  "WidgetManager href body cfg =
     \<lparr>config = cfg,
      hashUrl = config_local cfg,
      channelNr = 0,
      widgets = [],
      subscribers = [],
      widgetSettings = apply_settings [(''hosturl'', href)] (config_widgetSettings cfg),
      defaultContainer = (case config_container cfg of Some c \<Rightarrow> c | None \<Rightarrow> body),
      effects = []\<rparr>"

definition emit :: "effect \<Rightarrow> manager \<Rightarrow> manager" where
  "emit e s = s\<lparr>effects := effects s @ [e]\<rparr>"

text \<open>\<open>_raiseEvent(event, arg)\<close>: the listener looked up is the property named
  \<open>event\<close> of \<open>config.listeners\<close>; the argument \<open>event\<close> is not used.\<close>

definition raiseEvent :: "string \<Rightarrow> url \<Rightarrow> manager \<Rightarrow> manager" where
  "raiseEvent event arg s =
     (case config_listeners (config s) of
        None \<Rightarrow> s
      | Some ls \<Rightarrow>
          (case map_of ls ''event'' of
             None \<Rightarrow> s
           | Some f \<Rightarrow> emit (Listener_call f arg) s))"

text \<open>\<open>_subscribe(url, topic)\<close>: when \<open>topic in _subscribers\<close> holds only because the
  topic names an inherited member, no array is created and \<open>push\<close> is called on that
  member, which throws.\<close>

definition priv_subscribe :: "url \<Rightarrow> topic \<Rightarrow> manager \<Rightarrow> result" where
  "priv_subscribe url topic s =
     (let subs = (if \<not> js_in topic (subscribers s)
                  then AList.update topic [] (subscribers s)
                  else subscribers s)
      in case get topic subs of
           Own l \<Rightarrow> Inr (s\<lparr>subscribers := AList.update topic (l @ [url]) subs\<rparr>)
         | Inherited n \<Rightarrow> Inl (TypeError, s)
         | Undefined \<Rightarrow> Inl (TypeError, s))"

text \<open>\<open>_initializeWidget(widget, url, widgetConfig)\<close> issues the remote call; the function
  it passes as callback is \<open>initialize_callback\<close>, run when the response arrives. Its
  assignment \<open>_widgets[url] = widget\<close> makes an own property: the callback exists only
  for a url with which \<open>addWidget\<close> has returned normally, and such a url names no
  inherited member.\<close>

definition priv_initializeWidget :: "interface \<Rightarrow> url \<Rightarrow> widgetConfig \<Rightarrow> manager \<Rightarrow> manager" where
  "priv_initializeWidget widget url wc s = emit (Remote_initialize widget (widgetSettings s)) s"

fun subscribe_loop :: "url \<Rightarrow> topic list \<Rightarrow> nat \<Rightarrow> manager \<Rightarrow> result" where
  "subscribe_loop url ts 0 s = Inr s"
| "subscribe_loop url ts (Suc i) s =
     (case priv_subscribe url (ts ! i) s of
        Inl e \<Rightarrow> Inl e
      | Inr s1 \<Rightarrow> subscribe_loop url ts i s1)"

definition initialize_callback :: "interface \<Rightarrow> url \<Rightarrow> response \<Rightarrow> manager \<Rightarrow> result" where
  "initialize_callback widget url r s =
     (if isInitialized r then
        (let s1 = s\<lparr>widgets := AList.update url widget (widgets s)\<rparr> in
         case subscriptions r of
           None \<Rightarrow> Inl (TypeError, s1)
         | Some ts \<Rightarrow>
             (case subscribe_loop url ts (length ts) s1 of
                Inl e \<Rightarrow> Inl e
              | Inr s2 \<Rightarrow> Inr (raiseEvent WidgetInitialized url s2)))
      else Inr (raiseEvent WidgetFailed url (emit (Destroy widget) s)))"

text \<open>\<open>_publish(url, topic, data)\<close>: the loop \<open>while (i--)\<close> runs from the last element
  to the first; \<open>_widgets[widgetUrl].send\<close> throws unless \<open>widgetUrl\<close> is an own
  property of \<open>_widgets\<close>. When the topic names an inherited member, \<open>subscribers\<close> is
  that member: it is truthy (as is an empty array), the loop runs \<open>length\<close> times and
  every element read from it is \<open>undefined\<close>.\<close>

fun publish_loop ::
  "url \<Rightarrow> topic \<Rightarrow> data \<Rightarrow> url list property \<Rightarrow> nat \<Rightarrow> manager \<Rightarrow> result" where
  "publish_loop url topic d subs 0 s = Inr s"
| "publish_loop url topic d subs (Suc i) s =
     (let widgetUrl = element subs i in
      if widgetUrl \<noteq> Some url then
        (case get (property_name widgetUrl) (widgets s) of
           Own w \<Rightarrow>
             publish_loop url topic d subs i (emit (Remote_send w (Args url topic d)) s)
         | Inherited n \<Rightarrow> Inl (TypeError, s)
         | Undefined \<Rightarrow> Inl (TypeError, s))
      else publish_loop url topic d subs i s)"

definition priv_publish :: "url \<Rightarrow> topic \<Rightarrow> data \<Rightarrow> manager \<Rightarrow> result" where
  "priv_publish url topic d s =
     (let subs = get topic (subscribers s) in
      if subs \<noteq> Undefined then publish_loop url topic d subs (js_length subs) s else Inr s)"

text \<open>\<open>_setUpWidget(url, widgetConfig)\<close>. The two local methods the interface exposes to
  the widget are \<open>local_subscribe\<close> and \<open>local_publish\<close>; the function passed last is
  \<open>onReady\<close>.\<close>

definition priv_setUpWidget :: "url \<Rightarrow> widgetConfig \<Rightarrow> manager \<Rightarrow> manager" where
  "priv_setUpWidget url wc s =
     (let widget =
        \<lparr>channel = ''widget'' @ string_of_nat (channelNr s),
         local = hashUrl s,
         remote = url,
         container = (case widgetConfig_container wc of
                        Some c \<Rightarrow> c
                      | None \<Rightarrow> defaultContainer s)\<rparr>
      in emit (New_Interface widget) (s\<lparr>channelNr := js_increment (channelNr s)\<rparr>))"

definition local_subscribe :: "url \<Rightarrow> topic \<Rightarrow> manager \<Rightarrow> result" where
  "local_subscribe url topic s = priv_subscribe url topic s"

definition local_publish :: "url \<Rightarrow> topic \<Rightarrow> data \<Rightarrow> manager \<Rightarrow> result" where
  "local_publish url topic d s = priv_publish url topic d s"

definition onReady :: "interface \<Rightarrow> url \<Rightarrow> widgetConfig \<Rightarrow> manager \<Rightarrow> manager" where
  "onReady widget url wc s = priv_initializeWidget widget url wc s"

definition addWidget :: "url \<Rightarrow> widgetConfig \<Rightarrow> manager \<Rightarrow> result" where
  "addWidget url wc s =
     (if js_in url (widgets s)
      then Inl (Error ''A widget with this url has already been initialized'', s)
      else Inr (priv_setUpWidget url wc s))"

text \<open>\<open>removeWidget(url)\<close>. The inner loop scans one topic's subscribers from the end
  and stops at the first match, which it splices out.\<close>

fun splice_loop :: "url \<Rightarrow> url list \<Rightarrow> nat \<Rightarrow> url list" where
  "splice_loop url subs 0 = subs"
| "splice_loop url subs (Suc i) =
     (if subs ! i = url then take i subs @ drop (Suc i) subs else splice_loop url subs i)"

fun remove_loop :: "url \<Rightarrow> topic list \<Rightarrow> manager \<Rightarrow> result" where
  "remove_loop url [] s = Inr s"
| "remove_loop url (topic # rest) s =
     (case object_method ''hasOwnProperty'' of
        None \<Rightarrow> Inl (TypeError, s)
      | Some has \<Rightarrow>
          if has (subscribers s) topic then
            remove_loop url rest
              (s\<lparr>subscribers :=
                   AList.map_entry topic (\<lambda>subs. splice_loop url subs (length subs))
                     (subscribers s)\<rparr>)
          else remove_loop url rest s)"

definition removeWidget :: "url \<Rightarrow> manager \<Rightarrow> result" where
  "removeWidget url s =
     (if js_in url (widgets s) then
        (case remove_loop url (map fst (subscribers s)) s of
           Inl e \<Rightarrow> Inl e
         | Inr s1 \<Rightarrow>
             (case get url (widgets s1) of
                Own w \<Rightarrow> Inr ((emit (Destroy w) s1)\<lparr>widgets := AList.delete url (widgets s1)\<rparr>)
              | Inherited n \<Rightarrow> Inl (TypeError, s1)
              | Undefined \<Rightarrow> Inl (TypeError, s1)))
      else Inr s)"

definition publish :: "topic \<Rightarrow> data \<Rightarrow> manager \<Rightarrow> result" where
  "publish topic d s = priv_publish '''' topic d s"

text \<open>\<open>broadcast(data)\<close>: one iteration per property of \<open>_widgets\<close>.\<close>

fun broadcast_loop :: "url list \<Rightarrow> data \<Rightarrow> manager \<Rightarrow> result" where
  "broadcast_loop [] d s = Inr s"
| "broadcast_loop (url # rest) d s =
     (case object_method ''hasOwnPropert'' of
        None \<Rightarrow> Inl (TypeError, s)
      | Some has \<Rightarrow>
          if has (widgets s) url then
            (case map_of (widgets s) url of
               None \<Rightarrow> Inl (TypeError, s)
             | Some w \<Rightarrow>
                 broadcast_loop rest d (emit (Remote_send w (Message '''' ''broadcast'' d)) s))
          else broadcast_loop rest d s)"

definition broadcast :: "data \<Rightarrow> manager \<Rightarrow> result" where
  "broadcast d s = broadcast_loop (map fst (widgets s)) d s"


subsection \<open>What happens to a manager\<close>

text \<open>The manager runs one callback at a time. Besides the four public methods, the
  transport calls \<open>onReady\<close> once the interface made by \<open>_setUpWidget\<close> is ready, delivers
  the response of \<open>initialize\<close> to the callback, and invokes the local methods
  \<open>subscribe\<close> and \<open>publish\<close> on behalf of the widget at the other end. An exception
  ends the callback that threw it; the manager keeps the state reached and goes on with
  the next event.\<close>

datatype event =
    AddWidget url widgetConfig
  | RemoveWidget url
  | Publish topic data
  | Broadcast data
  | Ready interface url widgetConfig
  | Response interface url response
  | Peer_subscribe url topic
  | Peer_publish url topic data

fun fire :: "event \<Rightarrow> manager \<Rightarrow> result" where
  "fire (AddWidget url wc) s = addWidget url wc s"
| "fire (RemoveWidget url) s = removeWidget url s"
| "fire (Publish topic d) s = publish topic d s"
| "fire (Broadcast d) s = broadcast d s"
| "fire (Ready widget url wc) s = Inr (onReady widget url wc s)"
| "fire (Response widget url r) s = initialize_callback widget url r s"
| "fire (Peer_subscribe url topic) s = local_subscribe url topic s"
| "fire (Peer_publish url topic d) s = local_publish url topic d s"

fun state_of :: "result \<Rightarrow> manager" where
  "state_of (Inl (e, s)) = s"
| "state_of (Inr s) = s"

fun run :: "event list \<Rightarrow> manager \<Rightarrow> manager" where
  "run [] s = s"
| "run (e # es) s = run es (state_of (fire e s))"

text \<open>The subscribers of a topic (none when the topic has no entry) and the interfaces
  constructed so far.\<close>

definition subscribers_of :: "manager \<Rightarrow> topic \<Rightarrow> url list" where
  "subscribers_of s topic = (case map_of (subscribers s) topic of None \<Rightarrow> [] | Some l \<Rightarrow> l)"

fun created :: "effect list \<Rightarrow> interface list" where
  "created [] = []"
| "created (New_Interface w # es) = w # created es"
| "created (e # es) = created es"

subsection \<open>easyXDM.Widget\<close>

text \<open>The hosted application is given by what its callbacks do with the wrapper: the
  calls of \<open>subscribe\<close>, \<open>publish\<close> and \<open>registerMessageHandler\<close> they make, in order.
  A callback missing from \<open>config\<close> is \<open>None\<close>, and calling it throws.\<close>

datatype app_call =
    App_subscribe topic
  | App_publish topic data
  | App_registerMessageHandler handler

record widget_config =
  config_initialize :: "app_call list option"
  config_initialized :: "app_call list option"
  config_subscriptions :: "topic list option"

text \<open>The calls the wrapper makes: remote calls on \<open>_widgetHost\<close>, and calls of the
  registered message handler.\<close>

datatype host_effect =
    Host_subscribe topic
  | Host_publish topic data
  | Host_destroy
  | Handler_call handler url topic data

record widget =
  wrapper_config :: widget_config
  incomingMessageHandler :: "handler option"
  host_calls :: "host_effect list"

definition widget_publish :: "topic \<Rightarrow> data \<Rightarrow> widget \<Rightarrow> widget" where
  "widget_publish topic d w = w\<lparr>host_calls := host_calls w @ [Host_publish topic d]\<rparr>"

definition widget_subscribe :: "topic \<Rightarrow> widget \<Rightarrow> widget" where
  "widget_subscribe topic w = w\<lparr>host_calls := host_calls w @ [Host_subscribe topic]\<rparr>"

definition registerMessageHandler :: "handler \<Rightarrow> widget \<Rightarrow> widget" where
  "registerMessageHandler fn w = w\<lparr>incomingMessageHandler := Some fn\<rparr>"

fun app_step :: "app_call \<Rightarrow> widget \<Rightarrow> widget" where
  "app_step (App_subscribe topic) w = widget_subscribe topic w"
| "app_step (App_publish topic d) w = widget_publish topic d w"
| "app_step (App_registerMessageHandler fn) w = registerMessageHandler fn w"

fun app_run :: "app_call list \<Rightarrow> widget \<Rightarrow> widget" where
  "app_run [] w = w"
| "app_run (c # cs) w = app_run cs (app_step c w)"

text \<open>The constructor: the last statement calls \<open>config.initialize\<close>.\<close>

definition Widget :: "widget_config \<Rightarrow> error \<times> widget + widget" where
  "Widget cfg =
     (let w = \<lparr>wrapper_config = cfg, incomingMessageHandler = None, host_calls = []\<rparr> in
      case config_initialize cfg of
        None \<Rightarrow> Inl (TypeError, w)
      | Some calls \<Rightarrow> Inr (app_run calls w))"

text \<open>The local method \<open>initialize\<close>, which answers the manager's handshake.\<close>

definition local_initialize :: "settings \<Rightarrow> widget \<Rightarrow> error \<times> widget + response \<times> widget" where
  "local_initialize st w =
     (case config_initialized (wrapper_config w) of
        None \<Rightarrow> Inl (TypeError, w)
      | Some calls \<Rightarrow>
          Inr (\<lparr>isInitialized = True,
                subscriptions = config_subscriptions (wrapper_config w)\<rparr>,
               app_run calls w))"

text \<open>The local method \<open>send\<close>: \<open>_incomingMessageHandler\<close> is called whether or not a
  handler has been registered.\<close>

definition local_send :: "url \<Rightarrow> topic \<Rightarrow> data \<Rightarrow> widget \<Rightarrow> error \<times> widget + widget" where
  "local_send url topic d w =
     (case incomingMessageHandler w of
        None \<Rightarrow> Inl (TypeError, w)
      | Some fn \<Rightarrow> Inr (w\<lparr>host_calls := host_calls w @ [Handler_call fn url topic d]\<rparr>))"

definition onunload :: "widget \<Rightarrow> widget" where
  "onunload w = w\<lparr>host_calls := host_calls w @ [Host_destroy]\<rparr>"

subsection \<open>A host page with two widgets\<close>

definition host_config :: manager_config where
  "host_config =
     \<lparr>config_local = ''../hash.html'',
      config_container = None,
      config_widgetSettings = [],
      config_listeners = Some [(''onInitialized'', ''hostOnInitialized''),
                               (''onFailed'', ''hostOnFailed''),
                               (''widgetinitialized'', ''hostOnInitialized''),
                               (''widgetfailed'', ''hostOnFailed'')]\<rparr>"

definition host_manager :: manager where
  "host_manager = WidgetManager ''http://host/'' ''body'' host_config"

definition no_container :: widgetConfig where
  "no_container = \<lparr>widgetConfig_container = None\<rparr>"

definition interface_of :: "nat \<Rightarrow> url \<Rightarrow> interface" where
  "interface_of n url =
     \<lparr>channel = ''widget'' @ string_of_nat n, local = ''../hash.html'',
      remote = url, container = ''body''\<rparr>"

definition succeeded :: "topic list \<Rightarrow> response" where
  "succeeded ts = \<lparr>isInitialized = True, subscriptions = Some ts\<rparr>"

definition failed :: response where
  "failed = \<lparr>isInitialized = False, subscriptions = None\<rparr>"

text \<open>Widget \<open>peerA\<close> is added and its handshake succeeds with the topic \<open>news\<close>.\<close>

definition peerA_added :: "event list" where
  "peerA_added =
     [AddWidget ''peerA'' no_container,
      Ready (interface_of 0 ''peerA'') ''peerA'' no_container]"

definition peerA_active :: "event list" where
  "peerA_active =
     peerA_added @ [Response (interface_of 0 ''peerA'') ''peerA'' (succeeded [''news''])]"

definition peerA_failed :: "event list" where
  "peerA_failed = peerA_added @ [Response (interface_of 0 ''peerA'') ''peerA'' failed]"

text \<open>Widget \<open>peerB\<close> is added first and \<open>peerA\<close> second; both handshakes succeed
  with the topic \<open>news\<close>.\<close>

definition both_active :: "event list" where
  "both_active =
     [AddWidget ''peerB'' no_container,
      Ready (interface_of 0 ''peerB'') ''peerB'' no_container,
      Response (interface_of 0 ''peerB'') ''peerB'' (succeeded [''news'']),
      AddWidget ''peerA'' no_container,
      Ready (interface_of 1 ''peerA'') ''peerA'' no_container,
      Response (interface_of 1 ''peerA'') ''peerA'' (succeeded [''news''])]"

text \<open>Then the application in \<open>peerA\<close> calls \<open>subscribe\<close> for the topic its
  configuration has declared already, and later the host removes \<open>peerA\<close>.\<close>

definition subscribed_again :: "event list" where
  "subscribed_again = both_active @ [Peer_subscribe ''peerA'' ''news'']"

definition peerA_removed :: "event list" where
  "peerA_removed = subscribed_again @ [RemoveWidget ''peerA'']"

text \<open>A widget whose application subscribes to \<open>x\<close> in its \<open>initialize\<close> callback,
  registers no message handler and declares no subscriptions in its configuration.\<close>

definition widget_x_config :: widget_config where
  "widget_x_config =
     \<lparr>config_initialize = Some [App_subscribe ''x''],
      config_initialized = Some [],
      config_subscriptions = Some []\<rparr>"

definition widget_x :: widget where
  "widget_x =
     \<lparr>wrapper_config = widget_x_config, incomingMessageHandler = None,
      host_calls = [Host_subscribe ''x'']\<rparr>"

subsection \<open>Auxiliary notions\<close>

text \<open>The channel counter together with the interfaces constructed so far, and the
  property that the \<open>k\<close>-th interface constructed has the channel \<open>widget\<close> followed by
  the decimal text of \<open>k\<close>, until the counter has reached its limit; the interfaces
  constructed from then on all carry the limit.\<close>

definition chan :: "manager \<Rightarrow> nat \<times> interface list" where
  "chan s = (channelNr s, created (effects s))"

definition numbered :: "manager \<Rightarrow> bool" where
  "numbered s =
     (channelNr s \<le> counter_limit \<and>
      map channel (created (effects s)) =
        map (\<lambda>n. ''widget'' @ string_of_nat n) [0..<channelNr s] @
        replicate (length (created (effects s)) - channelNr s)
          (''widget'' @ string_of_nat counter_limit) \<and>
      (channelNr s = counter_limit \<or> length (created (effects s)) = channelNr s))"

text \<open>No topic that names an inherited member has an array of its own in
  \<open>_subscribers\<close>, and no interface has been constructed for a url that names one.\<close>

definition plain_topics :: "manager \<Rightarrow> bool" where
  "plain_topics s = list_all (\<lambda>(topic, subs). \<not> inherited topic) (subscribers s)"

definition plain_remotes :: "manager \<Rightarrow> bool" where
  "plain_remotes s = list_all (\<lambda>w. \<not> inherited (remote w)) (created (effects s))"

text \<open>The subscriber table as the specification describes it: no url twice under a topic,
  and every url listed has an entry in \<open>_widgets\<close>.\<close>

definition well_formed :: "manager \<Rightarrow> bool" where
  "well_formed s =
     list_all (\<lambda>(topic, subs). distinct subs \<and> list_all (\<lambda>u. has_key u (widgets s)) subs)
       (subscribers s)"

section \<open>Properties\<close>

subsection \<open>Decimal text is injective\<close>

lemma digit_char_inj: "a < 10 \<Longrightarrow> b < 10 \<Longrightarrow> digit_char a = digit_char b \<Longrightarrow> a = b"
proof -
  assume a: "a < 10" and b: "b < 10" and e: "digit_char a = digit_char b"
  have d: "distinct ''0123456789''" by simp
  have "a < length ''0123456789''" "b < length ''0123456789''" using a b by simp_all
  with d e show "a = b" unfolding digit_char_def by (simp only: nth_eq_iff_index_eq)
qed

lemma string_of_nat_nonempty: "string_of_nat n \<noteq> []"
  by (subst string_of_nat.simps) simp

lemma string_of_nat_inj: "string_of_nat n = string_of_nat m \<Longrightarrow> n = m"
proof (induction n arbitrary: m rule: string_of_nat.induct)
  case (1 n)
  show ?case
  proof (cases "n < 10")
    case True
    note n = this
    show ?thesis
    proof (cases "m < 10")
      case True
      with n "1.prems" show ?thesis
        by (simp add: string_of_nat.simps [of n] string_of_nat.simps [of m] digit_char_inj)
    next
      case False
      with n "1.prems" string_of_nat_nonempty [of "m div 10"] show ?thesis
        by (auto simp add: string_of_nat.simps [of n] string_of_nat.simps [of m])
    qed
  next
    case False
    note n = this
    show ?thesis
    proof (cases "m < 10")
      case True
      with n "1.prems" string_of_nat_nonempty [of "n div 10"] show ?thesis
        by (auto simp add: string_of_nat.simps [of n] string_of_nat.simps [of m])
    next
      case False
      with n "1.prems" have e: "string_of_nat (n div 10) = string_of_nat (m div 10)"
        and d: "digit_char (n mod 10) = digit_char (m mod 10)"
        by (simp_all add: string_of_nat.simps [of n] string_of_nat.simps [of m])
      from "1.IH" [OF n e] have q: "n div 10 = m div 10" .
      from d have r: "n mod 10 = m mod 10" by (rule digit_char_inj [rotated 2]) simp_all
      from q r show ?thesis by (metis div_mult_mod_eq)
    qed
  qed
qed

subsection \<open>Tables\<close>

lemma inherited_iff: "inherited k = (map_of object_prototype k \<noteq> None)"
  by (simp add: inherited_def map_of_eq_None_iff)

lemma js_in_plain: "\<not> inherited k \<Longrightarrow> js_in k obj = has_key k obj"
  by (simp add: js_in_def)

lemma js_in_inherited: "inherited k \<Longrightarrow> js_in k obj"
  by (simp add: js_in_def)

lemma get_Own: "map_of obj k = Some v \<Longrightarrow> get k obj = Own v"
  by (simp add: get_def)

lemma get_plain:
  "\<not> inherited k \<Longrightarrow>
   get k obj = (case map_of obj k of Some v \<Rightarrow> Own v | None \<Rightarrow> Undefined)"
  by (simp add: get_def inherited_iff split: option.splits)

lemma get_not_own:
  "map_of obj k = None \<Longrightarrow> get k obj = Undefined \<or> (\<exists>n. get k obj = Inherited n)"
  by (simp add: get_def split: option.splits)


lemma run_append: "run (es @ es') s = run es' (run es s)"
  by (induction es arbitrary: s) simp_all

subsection \<open>The counter and the interfaces constructed\<close>

lemma js_increment_eq: "js_increment n = (if n < counter_limit then Suc n else n)"
  by (simp add: js_increment_def counter_limit_def)

lemma created_append: "created (xs @ ys) = created xs @ created ys"
  by (induction xs rule: created.induct) simp_all

lemma chan_emit_other: "created [e] = [] \<Longrightarrow> chan (emit e s) = chan s"
  by (simp add: chan_def emit_def created_append)

lemma chan_raiseEvent: "chan (raiseEvent ev u s) = chan s"
  by (simp add: raiseEvent_def chan_def emit_def created_append split: option.splits)

lemma chan_priv_subscribe: "chan (state_of (priv_subscribe u t s)) = chan s"
  by (simp add: priv_subscribe_def chan_def Let_def split: property.splits)

lemma chan_subscribe_loop: "chan (state_of (subscribe_loop u ts i s)) = chan s"
proof (induction i arbitrary: s)
  case 0
  then show ?case by simp
next
  case (Suc i)
  show ?case
  proof (cases "priv_subscribe u (ts ! i) s")
    case (Inl p)
    with chan_priv_subscribe [of u "ts ! i" s] show ?thesis by (cases p) simp
  next
    case (Inr s1)
    with chan_priv_subscribe [of u "ts ! i" s] Suc [of s1] show ?thesis by simp
  qed
qed

lemma chan_widgets_update: "chan (s\<lparr>widgets := ws\<rparr>) = chan s"
  by (simp add: chan_def)

lemma chan_initialize_callback: "chan (state_of (initialize_callback w u r s)) = chan s"
proof (cases "isInitialized r")
  case False
  then show ?thesis
    by (simp add: initialize_callback_def chan_raiseEvent chan_emit_other)
next
  case True
  show ?thesis
  proof (cases "subscriptions r")
    case None
    with True show ?thesis by (simp add: initialize_callback_def chan_def)
  next
    case (Some ts)
    let ?s1 = "s\<lparr>widgets := AList.update u w (widgets s)\<rparr>"
    show ?thesis
    proof (cases "subscribe_loop u ts (length ts) ?s1")
      case (Inl p)
      with chan_subscribe_loop [of u ts "length ts" ?s1] True Some show ?thesis
        by (cases p) (simp add: initialize_callback_def chan_widgets_update)
    next
      case (Inr s2)
      with chan_subscribe_loop [of u ts "length ts" ?s1] True Some show ?thesis
        by (simp add: initialize_callback_def chan_widgets_update chan_raiseEvent)
    qed
  qed
qed

lemma chan_publish_loop: "chan (state_of (publish_loop u t d subs i s)) = chan s"
  by (induction i arbitrary: s)
    (simp_all add: Let_def chan_def emit_def created_append split: property.splits)

lemma chan_priv_publish: "chan (state_of (priv_publish u t d s)) = chan s"
  by (simp add: priv_publish_def Let_def chan_publish_loop)

lemma chan_remove_loop: "chan (state_of (remove_loop u ts s)) = chan s"
  by (induction ts arbitrary: s) (simp_all add: object_method_def chan_def)

lemma chan_removeWidget: "chan (state_of (removeWidget u s)) = chan s"
proof (cases "remove_loop u (map fst (subscribers s)) s")
  case (Inl p)
  with chan_remove_loop [of u "map fst (subscribers s)" s] show ?thesis
    by (cases p) (simp add: removeWidget_def)
next
  case (Inr s1)
  with chan_remove_loop [of u "map fst (subscribers s)" s] show ?thesis
    by (simp add: removeWidget_def chan_def emit_def created_append split: property.splits)
qed

lemma chan_broadcast: "chan (state_of (broadcast d s)) = chan s"
  by (cases "widgets s") (simp_all add: broadcast_def object_method_def)

lemma addWidget_returns:
  "\<not> js_in u (widgets s) \<Longrightarrow>
   addWidget u wc s = Inr (priv_setUpWidget u wc s) \<and>
   widgets (priv_setUpWidget u wc s) = widgets s \<and>
   channelNr (priv_setUpWidget u wc s) = js_increment (channelNr s) \<and>
   created (effects (priv_setUpWidget u wc s)) =
     created (effects s) @
     [\<lparr>channel = ''widget'' @ string_of_nat (channelNr s), local = hashUrl s, remote = u,
       container = (case widgetConfig_container wc of Some c \<Rightarrow> c
                    | None \<Rightarrow> defaultContainer s)\<rparr>]"
  by (simp add: addWidget_def priv_setUpWidget_def Let_def emit_def created_append)

lemma addWidget_throws:
  "js_in u (widgets s) \<Longrightarrow>
   addWidget u wc s = Inl (Error ''A widget with this url has already been initialized'', s)"
  by (simp add: addWidget_def)

lemma chan_fire:
  "chan (state_of (fire e s)) = chan s \<or>
   (\<exists>w. channel w = ''widget'' @ string_of_nat (channelNr s) \<and> \<not> inherited (remote w) \<and>
        chan (state_of (fire e s)) = (js_increment (channelNr s), created (effects s) @ [w]))"
proof (cases e)
  case (AddWidget u wc)
  show ?thesis
  proof (cases "js_in u (widgets s)")
    case True
    with AddWidget show ?thesis by (simp add: addWidget_throws)
  next
    case False
    then have "\<not> inherited u" by (simp add: js_in_def)
    with False AddWidget addWidget_returns [OF False, of wc] show ?thesis
      by (simp add: chan_def)
  qed
qed (simp_all add: chan_removeWidget chan_priv_publish chan_broadcast
      chan_initialize_callback chan_priv_subscribe publish_def local_publish_def
      local_subscribe_def onReady_def priv_initializeWidget_def chan_emit_other)

lemma numbered_step:
  assumes "numbered s"
    and "channel w = ''widget'' @ string_of_nat (channelNr s)"
    and "chan s' = (js_increment (channelNr s), created (effects s) @ [w])"
  shows "numbered s'"
proof -
  define name where "name = (\<lambda>n. ''widget'' @ string_of_nat n)"
  define c where "c = channelNr s"
  define cs where "cs = map channel (created (effects s))"
  from assms(3) have c': "channelNr s' = js_increment c"
    and cr': "map channel (created (effects s')) = cs @ [name c]"
    by (simp_all add: chan_def c_def cs_def name_def assms(2))
  from assms(1) have "c \<le> counter_limit \<and>
      cs = map name [0..<c] @ replicate (length cs - c) (name counter_limit) \<and>
      (c = counter_limit \<or> length cs = c)"
    unfolding numbered_def c_def cs_def name_def length_map .
  then have le: "c \<le> counter_limit"
    and eq: "cs = map name [0..<c] @ replicate (length cs - c) (name counter_limit)"
    and third: "c = counter_limit \<or> length cs = c"
    by blast+
  have goal: "numbered s' =
    (js_increment c \<le> counter_limit \<and>
     cs @ [name c] = map name [0..<js_increment c] @
        replicate (Suc (length cs) - js_increment c) (name counter_limit) \<and>
     (js_increment c = counter_limit \<or> Suc (length cs) = js_increment c))"
  proof -
    have "length (created (effects s')) = Suc (length cs)"
      using arg_cong [OF cr', of length] by simp
    then show ?thesis
      unfolding numbered_def c' cr' by (simp add: name_def)
  qed
  show ?thesis
  proof (cases "c < counter_limit")
    case True
    with third have n: "length cs = c" by simp
    from eq n have "cs = map name [0..<c]" by simp
    with True n show ?thesis by (simp add: goal js_increment_eq)
  next
    case False
    with le have c: "c = counter_limit" by simp
    from arg_cong [OF eq, of length] have "length cs = c + (length cs - c)" by simp
    then have "Suc (length cs) - c = Suc (length cs - c)" by arith
    then have r: "replicate (Suc (length cs) - c) (name c) =
        replicate (length cs - c) (name c) @ [name c]"
      by (simp add: replicate_append_same)
    from eq c have "cs = map name [0..<c] @ replicate (length cs - c) (name c)" by simp
    then have "cs @ [name c] =
        (map name [0..<c] @ replicate (length cs - c) (name c)) @ [name c]"
      by (rule arg_cong [where f = "\<lambda>l. l @ [name c]"])
    also have "\<dots> = map name [0..<c] @ replicate (Suc (length cs) - c) (name c)"
      by (simp only: r append_assoc)
    finally have "cs @ [name c] =
        map name [0..<c] @ replicate (Suc (length cs) - c) (name c)" .
    with c show ?thesis by (simp add: goal js_increment_eq)
  qed
qed

lemma numbered_fire: "numbered s \<Longrightarrow> numbered (state_of (fire e s))"
proof -
  assume n: "numbered s"
  from chan_fire [of e s] show ?thesis
  proof
    assume "chan (state_of (fire e s)) = chan s"
    with n show ?thesis by (simp add: numbered_def chan_def)
  next
    assume "\<exists>w. channel w = ''widget'' @ string_of_nat (channelNr s) \<and> \<not> inherited (remote w) \<and>
        chan (state_of (fire e s)) = (js_increment (channelNr s), created (effects s) @ [w])"
    then obtain w where "channel w = ''widget'' @ string_of_nat (channelNr s)"
      "chan (state_of (fire e s)) = (js_increment (channelNr s), created (effects s) @ [w])"
      by blast
    with n show ?thesis by (rule numbered_step)
  qed
qed

lemma numbered_run: "numbered s \<Longrightarrow> numbered (run evs s)"
  by (induction evs arbitrary: s) (simp_all add: numbered_fire)

lemma numbered_WidgetManager: "numbered (WidgetManager href body cfg)"
  by (simp add: numbered_def WidgetManager_def)

lemma channelNr_fire: "channelNr s \<le> channelNr (state_of (fire e s))"
proof -
  from chan_fire [of e s]
  have "channelNr (state_of (fire e s)) = channelNr s \<or>
        channelNr (state_of (fire e s)) = js_increment (channelNr s)"
    by (auto simp add: chan_def)
  then show ?thesis by (auto simp add: js_increment_eq)
qed

lemma channelNr_run: "channelNr s \<le> channelNr (run evs s)"
proof (induction evs arbitrary: s)
  case Nil
  then show ?case by simp
next
  case (Cons e evs)
  from channelNr_fire [of s e] Cons [of "state_of (fire e s)"] show ?case by simp
qed

lemma distinct_numbers: "distinct (map (\<lambda>n. ''widget'' @ string_of_nat n) [0..<k])"
  by (simp add: distinct_map inj_on_def string_of_nat_inj)

lemma numbered_distinct:
  assumes "numbered s"
  shows "distinct (take (Suc counter_limit) (map channel (created (effects s))))"
proof -
  define name where "name = (\<lambda>n. ''widget'' @ string_of_nat n)"
  define c where "c = channelNr s"
  define cs where "cs = map channel (created (effects s))"
  from assms have "c \<le> counter_limit \<and>
      cs = map name [0..<c] @ replicate (length cs - c) (name counter_limit) \<and>
      (c = counter_limit \<or> length cs = c)"
    unfolding numbered_def c_def cs_def name_def length_map .
  then have le: "c \<le> counter_limit"
    and eq: "cs = map name [0..<c] @ replicate (length cs - c) (name counter_limit)"
    and third: "c = counter_limit \<or> length cs = c"
    by blast+
  have d: "distinct (map name [0..<k])" for k
    unfolding name_def by (rule distinct_numbers)
  have "distinct (take (Suc counter_limit) cs)"
  proof (cases "length cs - c")
    case 0
    with eq have "cs = map name [0..<c]" by simp
    with d [of c] show ?thesis by (simp add: distinct_take)
  next
    case (Suc j)
    with third have c: "c = counter_limit" by auto
    from eq Suc c have "cs = map name [0..<counter_limit] @ name counter_limit # replicate j (name counter_limit)"
      by simp
    then have "take (Suc counter_limit) cs = map name [0..<counter_limit] @ [name counter_limit]"
      by simp
    also have "\<dots> = map name [0..<Suc counter_limit]" by simp
    finally show ?thesis using d [of "Suc counter_limit"] by simp
  qed
  then show ?thesis by (simp add: cs_def)
qed

lemma plain_remotes_fire: "plain_remotes s \<Longrightarrow> plain_remotes (state_of (fire e s))"
  using chan_fire [of e s] by (auto simp add: plain_remotes_def chan_def)

lemma plain_remotes_run: "plain_remotes s \<Longrightarrow> plain_remotes (run evs s)"
  by (induction evs arbitrary: s) (simp_all add: plain_remotes_fire)

lemma remotes_never_inherited: "plain_remotes (run evs (WidgetManager href body cfg))"
  by (rule plain_remotes_run) (simp add: plain_remotes_def WidgetManager_def)

text \<open>Once the counter has reached its limit, every further interface is named after the
  limit.\<close>

lemma addWidget_at_limit:
  assumes "\<not> js_in u (widgets s)" and "channelNr s = counter_limit"
  shows "\<not> js_in u (widgets (state_of (addWidget u wc s))) \<and>
         channelNr (state_of (addWidget u wc s)) = counter_limit \<and>
         map channel (created (effects (state_of (addWidget u wc s)))) =
           map channel (created (effects s)) @ [''widget'' @ string_of_nat counter_limit]"
  using assms addWidget_returns [OF assms(1), of wc] by (simp add: js_increment_eq)

lemma addWidget_repeat:
  assumes "\<not> js_in u (widgets s)" and "channelNr s + n \<le> counter_limit"
  shows "\<not> js_in u (widgets (run (replicate n (AddWidget u wc)) s)) \<and>
         channelNr (run (replicate n (AddWidget u wc)) s) = channelNr s + n"
  using assms
proof (induction n arbitrary: s)
  case 0
  then show ?case by simp
next
  case (Suc n)
  from Suc.prems have lt: "channelNr s < counter_limit" by simp
  let ?s1 = "state_of (addWidget u wc s)"
  from addWidget_returns [OF Suc.prems(1), of wc] lt
  have 1: "\<not> js_in u (widgets ?s1)" and 2: "channelNr ?s1 = Suc (channelNr s)"
    using Suc.prems(1) by (simp_all add: js_increment_eq)
  from Suc.prems 2 have "channelNr ?s1 + n \<le> counter_limit" by simp
  from Suc.IH [OF 1 this] 2 show ?case by simp
qed

subsection \<open>What each step leaves unchanged\<close>


lemma widgets_raiseEvent: "widgets (raiseEvent ev u s) = widgets s"
  by (simp add: raiseEvent_def emit_def split: option.splits)

lemma widgets_priv_subscribe: "widgets (state_of (priv_subscribe u t s)) = widgets s"
  by (simp add: priv_subscribe_def Let_def split: property.splits)

lemma widgets_subscribe_loop: "widgets (state_of (subscribe_loop u ts i s)) = widgets s"
proof (induction i arbitrary: s)
  case 0
  then show ?case by simp
next
  case (Suc i)
  show ?case
  proof (cases "priv_subscribe u (ts ! i) s")
    case (Inl p)
    with widgets_priv_subscribe [of u "ts ! i" s] show ?thesis by (cases p) simp
  next
    case (Inr s1)
    with widgets_priv_subscribe [of u "ts ! i" s] Suc [of s1] show ?thesis by simp
  qed
qed



lemma remove_loop_returns:
  "\<exists>s1. remove_loop u ts s = Inr s1 \<and> widgets s1 = widgets s \<and> effects s1 = effects s"
proof (induction ts arbitrary: s)
  case Nil
  then show ?case by simp
next
  case (Cons t ts)
  from Cons [of s]
    Cons [of "s\<lparr>subscribers :=
                 AList.map_entry t (\<lambda>subs. splice_loop u subs (length subs)) (subscribers s)\<rparr>"]
  show ?case by (auto simp add: object_method_def)
qed


lemma removeWidget_unknown: "\<not> js_in url (widgets s) \<Longrightarrow> removeWidget url s = Inr s"
  by (simp add: removeWidget_def)

lemma removeWidget_inherited:
  assumes "inherited url" and "\<not> has_key url (widgets s)"
  shows "isl (removeWidget url s)"
proof -
  obtain s1 where s1: "remove_loop url (map fst (subscribers s)) s = Inr s1"
    "widgets s1 = widgets s"
    using remove_loop_returns by blast
  from assms(2) have "map_of (widgets s) url = None" by (simp add: has_key_def)
  from get_not_own [OF this] assms(1) s1 show ?thesis
    by (auto simp add: removeWidget_def js_in_inherited)
qed

subsection \<open>Subscribing\<close>

lemma priv_subscribe_plain:
  assumes "\<not> inherited t"
  shows "priv_subscribe u t s =
           Inr (s\<lparr>subscribers :=
                  AList.update t (subscribers_of s t @ [u]) (subscribers s)\<rparr>)"
proof (cases "map_of (subscribers s) t")
  case None
  with assms show ?thesis
    by (simp add: priv_subscribe_def Let_def js_in_plain has_key_def get_def update_conv'
        subscribers_of_def)
next
  case (Some l)
  with assms show ?thesis
    by (simp add: priv_subscribe_def Let_def js_in_plain has_key_def get_def subscribers_of_def)
qed

lemma priv_subscribe_inherited:
  assumes "inherited t" and "\<not> has_key t (subscribers s)"
  shows "priv_subscribe u t s = Inl (TypeError, s)"
proof -
  from assms(2) have "map_of (subscribers s) t = None" by (simp add: has_key_def)
  from get_not_own [OF this] assms(1) show ?thesis
    by (auto simp add: priv_subscribe_def Let_def js_in_inherited)
qed

lemma subscribers_of_priv_subscribe:
  "\<not> inherited t \<Longrightarrow>
   subscribers_of (state_of (priv_subscribe u t s)) T =
     (if T = t then subscribers_of s t @ [u] else subscribers_of s T)"
  by (simp add: priv_subscribe_plain subscribers_of_def update_conv')

lemma subscribers_of_raiseEvent: "subscribers_of (raiseEvent ev u s) T = subscribers_of s T"
  by (simp add: subscribers_of_def raiseEvent_def emit_def split: option.splits)

lemma subscribe_loop_plain:
  assumes "i \<le> length ts" and "\<forall>t\<in>set (take i ts). \<not> inherited t"
  shows "\<not> isl (subscribe_loop u ts i s) \<and>
         widgets (state_of (subscribe_loop u ts i s)) = widgets s \<and>
         set (subscribers_of (state_of (subscribe_loop u ts i s)) T) =
           set (subscribers_of s T) \<union> (if T \<in> set (take i ts) then {u} else {})"
  using assms
proof (induction i arbitrary: s)
  case 0
  then show ?case by simp
next
  case (Suc i)
  then have "i < length ts" by simp
  then have t: "take (Suc i) ts = take i ts @ [ts ! i]" by (rule take_Suc_conv_app_nth)
  from Suc.prems t have p: "\<not> inherited (ts ! i)" and q: "\<forall>t\<in>set (take i ts). \<not> inherited t"
    by simp_all
  let ?s1 = "s\<lparr>subscribers :=
      AList.update (ts ! i) (subscribers_of s (ts ! i) @ [u]) (subscribers s)\<rparr>"
  have e: "priv_subscribe u (ts ! i) s = Inr ?s1" using p by (rule priv_subscribe_plain)
  have s1: "subscribers_of ?s1 T =
      (if T = ts ! i then subscribers_of s (ts ! i) @ [u] else subscribers_of s T)"
    using subscribers_of_priv_subscribe [OF p, of u s T] by (simp add: e)
  from Suc.prems have le: "i \<le> length ts" by simp
  from Suc.IH [OF le q, of ?s1] show ?case
    by (auto simp add: e t s1)
qed

lemma plain_topics_iff:
  "plain_topics s = (\<forall>t\<in>fst ` set (subscribers s). \<not> inherited t)"
  by (force simp add: plain_topics_def list_all_iff)

lemma plain_topics_priv_subscribe:
  "plain_topics s \<Longrightarrow> plain_topics (state_of (priv_subscribe u t s))"
proof (cases "inherited t")
  case False
  assume "plain_topics s"
  with False show ?thesis
    by (simp add: priv_subscribe_plain plain_topics_iff dom_update)
next
  case True
  assume p: "plain_topics s"
  have "\<not> has_key t (subscribers s)"
  proof
    assume "has_key t (subscribers s)"
    then obtain l where "map_of (subscribers s) t = Some l" by (auto simp add: has_key_def)
    then have "(t, l) \<in> set (subscribers s)" by (rule map_of_SomeD)
    then have "t \<in> fst ` set (subscribers s)" by force
    with p True show False by (auto simp add: plain_topics_iff)
  qed
  with True p show ?thesis by (simp add: priv_subscribe_inherited)
qed

lemma plain_topics_subscribe_loop:
  "plain_topics s \<Longrightarrow> plain_topics (state_of (subscribe_loop u ts i s))"
proof (induction i arbitrary: s)
  case 0
  then show ?case by simp
next
  case (Suc i)
  show ?case
  proof (cases "priv_subscribe u (ts ! i) s")
    case (Inl p)
    with plain_topics_priv_subscribe [OF Suc.prems, of u "ts ! i"] show ?thesis
      by (cases p) simp
  next
    case (Inr s1)
    with plain_topics_priv_subscribe [OF Suc.prems, of u "ts ! i"] Suc.IH [of s1]
    show ?thesis by simp
  qed
qed

lemma plain_topics_same: "subscribers s' = subscribers s \<Longrightarrow> plain_topics s' = plain_topics s"
  by (simp add: plain_topics_def)

lemma subscribers_raiseEvent: "subscribers (raiseEvent ev u s) = subscribers s"
  by (simp add: raiseEvent_def emit_def split: option.splits)

lemma plain_topics_initialize_callback:
  assumes "plain_topics s"
  shows "plain_topics (state_of (initialize_callback w u r s))"
proof (cases "isInitialized r")
  case False
  with assms show ?thesis
    by (simp add: initialize_callback_def plain_topics_def subscribers_raiseEvent emit_def)
next
  case True
  show ?thesis
  proof (cases "subscriptions r")
    case None
    with True assms show ?thesis by (simp add: initialize_callback_def plain_topics_def)
  next
    case (Some ts)
    let ?s1 = "s\<lparr>widgets := AList.update u w (widgets s)\<rparr>"
    from assms have p: "plain_topics ?s1" by (simp add: plain_topics_def)
    show ?thesis
    proof (cases "subscribe_loop u ts (length ts) ?s1")
      case (Inl q)
      with plain_topics_subscribe_loop [OF p, of u ts "length ts"] True Some show ?thesis
        by (cases q) (simp add: initialize_callback_def)
    next
      case (Inr s2)
      with plain_topics_subscribe_loop [OF p, of u ts "length ts"] True Some show ?thesis
        by (simp add: initialize_callback_def plain_topics_def subscribers_raiseEvent)
    qed
  qed
qed

lemma subscribers_publish_loop:
  "subscribers (state_of (publish_loop u t d subs i s)) = subscribers s"
  by (induction i arbitrary: s) (simp_all add: Let_def emit_def split: property.splits)

lemma subscribers_priv_publish: "subscribers (state_of (priv_publish u t d s)) = subscribers s"
  by (simp add: priv_publish_def Let_def subscribers_publish_loop)

lemma plain_topics_remove_loop:
  "plain_topics s \<Longrightarrow> plain_topics (state_of (remove_loop u ts s))"
proof (induction ts arbitrary: s)
  case Nil
  then show ?case by simp
next
  case (Cons t ts)
  let ?s1 = "s\<lparr>subscribers :=
      AList.map_entry t (\<lambda>subs. splice_loop u subs (length subs)) (subscribers s)\<rparr>"
  from Cons.prems have "plain_topics ?s1" by (simp add: plain_topics_iff dom_map_entry)
  from Cons.IH [OF this] Cons.IH [OF Cons.prems] show ?case
    by (simp add: object_method_def)
qed

lemma plain_topics_removeWidget:
  assumes "plain_topics s"
  shows "plain_topics (state_of (removeWidget u s))"
proof (cases "remove_loop u (map fst (subscribers s)) s")
  case (Inl p)
  with plain_topics_remove_loop [OF assms, of u "map fst (subscribers s)"] assms show ?thesis
    by (cases p) (simp add: removeWidget_def)
next
  case (Inr s1)
  with plain_topics_remove_loop [OF assms, of u "map fst (subscribers s)"] assms show ?thesis
    by (simp add: removeWidget_def plain_topics_def emit_def split: property.splits)
qed

lemma state_of_broadcast: "state_of (broadcast d s) = s"
  by (cases "widgets s") (simp_all add: broadcast_def object_method_def)

lemma plain_topics_fire: "plain_topics s \<Longrightarrow> plain_topics (state_of (fire e s))"
proof (cases e)
  case (AddWidget u wc)
  assume "plain_topics s"
  with AddWidget show ?thesis
    by (simp add: addWidget_def priv_setUpWidget_def Let_def emit_def plain_topics_def)
next
  case (Ready w u wc)
  assume "plain_topics s"
  with Ready show ?thesis
    by (simp add: onReady_def priv_initializeWidget_def emit_def plain_topics_def)
qed (simp_all add: plain_topics_removeWidget plain_topics_initialize_callback
      plain_topics_priv_subscribe local_subscribe_def local_publish_def publish_def
      state_of_broadcast plain_topics_same [OF subscribers_priv_publish])

lemma plain_topics_run: "plain_topics s \<Longrightarrow> plain_topics (run evs s)"
  by (induction evs arbitrary: s) (simp_all add: plain_topics_fire)

lemma topics_never_inherited: "plain_topics (run evs (WidgetManager href body cfg))"
  by (rule plain_topics_run) (simp add: plain_topics_def WidgetManager_def)

subsection \<open>The wrapper\<close>

lemma wrapper_config_app_run: "wrapper_config (app_run cs w) = wrapper_config w"
proof (induction cs arbitrary: w)
  case Nil
  then show ?case by simp
next
  case (Cons c cs)
  then show ?case
    by (cases c) (simp_all add: widget_subscribe_def widget_publish_def registerMessageHandler_def)
qed

lemma host_calls_app_step:
  "Host_subscribe x \<in> set (host_calls (app_step c w)) =
     (c = App_subscribe x \<or> Host_subscribe x \<in> set (host_calls w))"
  by (cases c) (auto simp add: widget_subscribe_def widget_publish_def registerMessageHandler_def)

lemma host_calls_app_run:
  "Host_subscribe x \<in> set (host_calls (app_run cs w)) =
     (App_subscribe x \<in> set cs \<or> Host_subscribe x \<in> set (host_calls w))"
  by (induction cs arbitrary: w) (auto simp add: host_calls_app_step)

lemma local_send_general:
  "local_send u t d w =
     (case incomingMessageHandler w of
        None \<Rightarrow> Inl (TypeError, w)
      | Some fn \<Rightarrow> Inr (w\<lparr>host_calls := host_calls w @ [Handler_call fn u t d]\<rparr>))"
  by (simp add: local_send_def)

subsection \<open>publish, when every subscriber has an initialized widget\<close>

lemma publish_loop_relays:
  assumes "i \<le> length subs"
    and "\<forall>u\<in>set (take i subs). u \<noteq> S \<longrightarrow> has_key u (widgets s)"
  shows "publish_loop S T d (Own subs) i s =
           Inr (s\<lparr>effects := effects s @
                  map (\<lambda>u. Remote_send (the (map_of (widgets s) u)) (Args S T d))
                    (filter (\<lambda>u. u \<noteq> S) (rev (take i subs)))\<rparr>)"
  using assms
proof (induction i arbitrary: s)
  case 0
  then show ?case by simp
next
  case (Suc i)
  then have i: "i < length subs" by simp
  then have t: "take (Suc i) subs = take i subs @ [subs ! i]" by (rule take_Suc_conv_app_nth)
  from Suc.prems have le: "i \<le> length subs" by simp
  show ?case
  proof (cases "subs ! i = S")
    case True
    from Suc.prems have "\<forall>u\<in>set (take i subs). u \<noteq> S \<longrightarrow> has_key u (widgets s)"
      by (simp add: t)
    with Suc.IH [OF le, of s] True i show ?thesis by (simp add: t)
  next
    case False
    with Suc.prems obtain w where w: "map_of (widgets s) (subs ! i) = Some w"
      by (auto simp add: t has_key_def)
    from Suc.prems
    have "\<forall>u\<in>set (take i subs). u \<noteq> S \<longrightarrow>
            has_key u (widgets (emit (Remote_send w (Args S T d)) s))"
      by (simp add: t emit_def)
    from Suc.IH [OF le this] False w i show ?thesis
      by (simp add: t emit_def get_Own)
  qed
qed

lemma priv_publish_relays:
  assumes "\<not> inherited T"
    and "\<forall>u\<in>set (subscribers_of s T). u \<noteq> S \<longrightarrow> has_key u (widgets s)"
  shows "priv_publish S T d s =
           Inr (s\<lparr>effects := effects s @
                  map (\<lambda>u. Remote_send (the (map_of (widgets s) u)) (Args S T d))
                    (filter (\<lambda>u. u \<noteq> S) (rev (subscribers_of s T)))\<rparr>)"
proof (cases "map_of (subscribers s) T")
  case None
  with assms(1) show ?thesis
    by (simp add: priv_publish_def Let_def subscribers_of_def get_plain)
next
  case (Some subs)
  with assms have "\<forall>u\<in>set (take (length subs) subs). u \<noteq> S \<longrightarrow> has_key u (widgets s)"
    by (simp add: subscribers_of_def)
  from publish_loop_relays [OF le_refl this] Some show ?thesis
    by (simp add: priv_publish_def Let_def subscribers_of_def get_Own)
qed

lemma priv_publish_no_subscribers:
  "\<not> inherited T \<Longrightarrow> subscribers_of s T = [] \<Longrightarrow> priv_publish S T d s = Inr s"
  by (simp add: priv_publish_def Let_def subscribers_of_def get_plain split: option.splits)

lemma publish_both_active:
  "publish ''news'' ''n1'' (run both_active host_manager) =
     Inr ((run both_active host_manager)
       \<lparr>effects := effects (run both_active host_manager) @
          [Remote_send (interface_of 1 ''peerA'') (Args '''' ''news'' ''n1''),
           Remote_send (interface_of 0 ''peerB'') (Args '''' ''news'' ''n1'')]\<rparr>) \<and>
   local_publish ''peerA'' ''news'' ''n2'' (run both_active host_manager) =
     Inr ((run both_active host_manager)
       \<lparr>effects := effects (run both_active host_manager) @
          [Remote_send (interface_of 0 ''peerB'') (Args ''peerA'' ''news'' ''n2'')]\<rparr>)"
  by code_simp

subsection \<open>removeWidget, when no url is listed twice under a topic\<close>

lemma splice_at:
  assumes "distinct l" and "i < length l"
  shows "set (take i l @ drop (Suc i) l) = set l - {l ! i} \<and> distinct (take i l @ drop (Suc i) l)"
proof -
  have l: "l = take i l @ l ! i # drop (Suc i) l" using assms(2) by (rule id_take_nth_drop)
  from assms(1) have d: "distinct (take i l @ l ! i # drop (Suc i) l)" using l by simp
  then have "l ! i \<notin> set (take i l)" "l ! i \<notin> set (drop (Suc i) l)"
    "distinct (take i l @ drop (Suc i) l)" by auto
  moreover have "set l = set (take i l) \<union> {l ! i} \<union> set (drop (Suc i) l)"
    by (subst l) auto
  ultimately show ?thesis by auto
qed

lemma splice_loop_distinct:
  assumes "distinct l" and "i \<le> length l" and "url \<notin> set (drop i l)"
  shows "set (splice_loop url l i) = set l - {url} \<and> distinct (splice_loop url l i)"
  using assms
proof (induction i)
  case 0
  then show ?case by simp
next
  case (Suc i)
  then have i: "i < length l" by simp
  show ?case
  proof (cases "l ! i = url")
    case True
    with splice_at [OF Suc.prems(1) i] show ?thesis by simp
  next
    case False
    have "drop i l = l ! i # drop (Suc i) l" using i by (simp add: Cons_nth_drop_Suc)
    with False Suc.prems have "url \<notin> set (drop i l)" by simp
    with Suc.IH Suc.prems False show ?thesis by simp
  qed
qed

lemma splice_distinct:
  "distinct l \<Longrightarrow>
   set (splice_loop url l (length l)) = set l - {url} \<and> distinct (splice_loop url l (length l))"
  by (rule splice_loop_distinct) simp_all

lemma remove_loop_clears:
  assumes "\<forall>T. distinct (subscribers_of s T)"
  shows "\<exists>s1. remove_loop url ts s = Inr s1 \<and> widgets s1 = widgets s \<and> effects s1 = effects s \<and>
           (\<forall>T. distinct (subscribers_of s1 T) \<and>
                set (subscribers_of s1 T) =
                  (if T \<in> set ts then set (subscribers_of s T) - {url}
                   else set (subscribers_of s T)))"
  using assms
proof (induction ts arbitrary: s)
  case Nil
  then show ?case by simp
next
  case (Cons t ts)
  show ?case
  proof (cases "has_key t (subscribers s)")
    case False
    then have e: "subscribers_of s t = []" by (simp add: subscribers_of_def has_key_def)
    from Cons.IH [OF Cons.prems] obtain s1 where s1: "remove_loop url ts s = Inr s1"
      "widgets s1 = widgets s" "effects s1 = effects s"
      "\<forall>T. distinct (subscribers_of s1 T) \<and>
           set (subscribers_of s1 T) =
             (if T \<in> set ts then set (subscribers_of s T) - {url}
              else set (subscribers_of s T))"
      by blast
    have r: "remove_loop url (t # ts) s = remove_loop url ts s"
      using False by (simp add: object_method_def)
    have q: "\<forall>T. distinct (subscribers_of s1 T) \<and>
           set (subscribers_of s1 T) =
             (if T \<in> set (t # ts) then set (subscribers_of s T) - {url}
              else set (subscribers_of s T))"
      using s1(4) e by auto
    show ?thesis unfolding r using s1(1-3) q by blast
  next
    case True
    define s' where "s' = s\<lparr>subscribers :=
        AList.map_entry t (\<lambda>subs. splice_loop url subs (length subs)) (subscribers s)\<rparr>"
    have sub: "subscribers_of s' T =
        (if T = t then splice_loop url (subscribers_of s t) (length (subscribers_of s t))
         else subscribers_of s T)" for T
      using True
      by (auto simp add: s'_def subscribers_of_def map_of_map_entry has_key_def split: option.splits)
    from Cons.prems have dt: "distinct (subscribers_of s t)" by simp
    have d': "\<forall>T. distinct (subscribers_of s' T)"
      using Cons.prems splice_distinct [OF dt, of url] by (simp add: sub)
    from Cons.IH [OF d'] obtain s1 where s1: "remove_loop url ts s' = Inr s1"
      "widgets s1 = widgets s'" "effects s1 = effects s'"
      "\<forall>T. distinct (subscribers_of s1 T) \<and>
           set (subscribers_of s1 T) =
             (if T \<in> set ts then set (subscribers_of s' T) - {url}
              else set (subscribers_of s' T))"
      by blast
    have r: "remove_loop url (t # ts) s = remove_loop url ts s'"
      using True by (simp add: object_method_def s'_def)
    have w: "widgets s' = widgets s" "effects s' = effects s" by (simp_all add: s'_def)
    have q: "\<forall>T. distinct (subscribers_of s1 T) \<and>
           set (subscribers_of s1 T) =
             (if T \<in> set (t # ts) then set (subscribers_of s T) - {url}
              else set (subscribers_of s T))"
      using s1(4) splice_distinct [OF dt, of url] by (auto simp add: sub)
    show ?thesis unfolding r using s1(1-3) q by (simp add: w)
  qed
qed

lemma removeWidget_clears:
  assumes "has_key url (widgets s)" and "\<forall>T. distinct (subscribers_of s T)"
  shows "\<exists>s'. removeWidget url s = Inr s' \<and>
           (\<forall>T. url \<notin> set (subscribers_of s' T)) \<and>
           \<not> has_key url (widgets s') \<and>
           effects s' = effects s @ [Destroy (the (map_of (widgets s) url))]"
proof -
  from remove_loop_clears [OF assms(2), of url "map fst (subscribers s)"]
  obtain s1 where s1: "remove_loop url (map fst (subscribers s)) s = Inr s1"
    "widgets s1 = widgets s" "effects s1 = effects s"
    "\<forall>T. set (subscribers_of s1 T) =
          (if T \<in> set (map fst (subscribers s)) then set (subscribers_of s T) - {url}
           else set (subscribers_of s T))"
    by blast
  from assms(1) obtain w where w: "map_of (widgets s) url = Some w"
    by (auto simp add: has_key_def)
  have k: "subscribers_of s T = []" if "T \<notin> set (map fst (subscribers s))" for T
  proof -
    from that have "map_of (subscribers s) T = None" by (simp add: map_of_eq_None_iff)
    then show ?thesis by (simp add: subscribers_of_def)
  qed
  have c: "url \<notin> set (subscribers_of s1 T)" for T
    using s1(4) k [of T] by (cases "T \<in> set (map fst (subscribers s))") auto
  have "removeWidget url s =
      Inr ((emit (Destroy w) s1)\<lparr>widgets := AList.delete url (widgets s1)\<rparr>)"
    using assms(1) s1 w by (simp add: removeWidget_def js_in_def get_Own)
  moreover have "\<forall>T. subscribers_of ((emit (Destroy w) s1)\<lparr>widgets := AList.delete url (widgets s1)\<rparr>) T =
      subscribers_of s1 T"
    by (simp add: subscribers_of_def emit_def)
  ultimately show ?thesis using c s1 w
    by (simp add: emit_def has_key_def delete_conv')
qed

subsection \<open>publish and removeWidget on a well-formed table\<close>

lemma well_formed_subscribers_of:
  assumes "well_formed s"
  shows "distinct (subscribers_of s T) \<and> (\<forall>u\<in>set (subscribers_of s T). has_key u (widgets s))"
proof (cases "map_of (subscribers s) T")
  case None
  then show ?thesis by (simp add: subscribers_of_def)
next
  case (Some subs)
  then have "(T, subs) \<in> set (subscribers s)" by (rule map_of_SomeD)
  with assms have "distinct subs \<and> list_all (\<lambda>u. has_key u (widgets s)) subs"
    by (auto simp add: well_formed_def list_all_iff)
  with Some show ?thesis by (simp add: subscribers_of_def list_all_iff)
qed

lemma publish_well_formed:
  assumes "well_formed s" and "\<not> inherited T"
  shows "priv_publish S T d s =
           Inr (s\<lparr>effects := effects s @
                  map (\<lambda>u. Remote_send (the (map_of (widgets s) u)) (Args S T d))
                    (filter (\<lambda>u. u \<noteq> S) (rev (subscribers_of s T)))\<rparr>)"
  using well_formed_subscribers_of [OF assms(1), of T]
  by (intro priv_publish_relays [OF assms(2)]) simp

lemma removeWidget_well_formed:
  assumes "well_formed s" and "has_key url (widgets s)"
  shows "\<exists>s'. removeWidget url s = Inr s' \<and>
           (\<forall>T. url \<notin> set (subscribers_of s' T)) \<and>
           \<not> has_key url (widgets s') \<and>
           effects s' = effects s @ [Destroy (the (map_of (widgets s) url))]"
  using well_formed_subscribers_of [OF assms(1)] by (intro removeWidget_clears [OF assms(2)]) simp

lemma well_formed_examples:
  "well_formed host_manager \<and> well_formed (run both_active host_manager) \<and>
   \<not> well_formed (run subscribed_again host_manager) \<and>
   \<not> well_formed (run peerA_removed host_manager)"
  by code_simp

subsection \<open>Names inherited from Object.prototype\<close>

lemma inherited_examples:
  "addWidget ''toString'' no_container host_manager =
     Inl (Error ''A widget with this url has already been initialized'', host_manager) \<and>
   removeWidget ''toString'' host_manager = Inl (TypeError, host_manager) \<and>
   publish ''constructor'' ''d'' host_manager = Inl (TypeError, host_manager) \<and>
   publish ''toString'' ''d'' host_manager = Inr host_manager"
  by code_simp

subsection \<open>broadcast and listeners\<close>

lemma broadcast_general:
  "broadcast d s = (if widgets s = [] then Inr s else Inl (TypeError, s))"
  by (cases "widgets s") (simp_all add: broadcast_def object_method_def)

lemma raiseEvent_listener:
  "effects (raiseEvent ev u s) =
     (case config_listeners (config s) of
        None \<Rightarrow> effects s
      | Some ls \<Rightarrow> (case map_of ls ''event'' of
                     None \<Rightarrow> effects s
                   | Some f \<Rightarrow> effects s @ [Listener_call f u]))"
  by (simp add: raiseEvent_def emit_def split: option.splits)

subsection \<open>A successful handshake with plain topics\<close>

lemma handshake_success_plain_topics:
  assumes "isInitialized r" and "subscriptions r = Some ts"
    and "\<forall>T\<in>set ts. \<not> inherited T"
  shows "\<not> isl (initialize_callback w url r s) \<and>
         map_of (widgets (state_of (initialize_callback w url r s))) url = Some w \<and>
         (\<forall>T\<in>set ts. url \<in> set (subscribers_of (state_of (initialize_callback w url r s)) T))"
proof -
  let ?s1 = "s\<lparr>widgets := AList.update url w (widgets s)\<rparr>"
  from assms(3) have q: "\<forall>t\<in>set (take (length ts) ts). \<not> inherited t" by simp
  note l = subscribe_loop_plain [OF le_refl q, of url ?s1]
  then obtain s2 where s2: "subscribe_loop url ts (length ts) ?s1 = Inr s2"
    by (cases "subscribe_loop url ts (length ts) ?s1") auto
  from l s2 have w: "widgets s2 = AList.update url w (widgets s)"
    and m: "set (subscribers_of s2 T) =
      set (subscribers_of ?s1 T) \<union> (if T \<in> set ts then {url} else {})" for T
    by simp_all
  from assms(1,2) s2 have e: "initialize_callback w url r s =
      Inr (raiseEvent WidgetInitialized url s2)"
    by (simp add: initialize_callback_def)
  show ?thesis
    by (simp add: e widgets_raiseEvent w update_conv' subscribers_of_raiseEvent m)
qed

section \<open>The claims\<close>

subsection \<open>C1: publish\<close>

text \<open>
  C1. \<open>publish(T, d)\<close> with sender \<open>S\<close> is to call \<open>send(S, T, d)\<close> on exactly the
  subscribers of \<open>T\<close> other than \<open>S\<close>. Here \<open>peerB\<close> and \<open>peerA\<close> have been initialized
  with the topic \<open>news\<close>, \<open>peerA\<close> has subscribed to \<open>news\<close> once more and has then been
  removed. The topic still lists \<open>peerA\<close> behind \<open>peerB\<close>, \<open>_widgets\<close> holds \<open>peerB\<close>
  alone, and \<open>publish\<close> by the manager throws a TypeError at \<open>_widgets[peerA].send\<close>
  before anything is sent: the state it leaves is the state it found, so \<open>peerB\<close>, an
  initialized subscriber, is not reached. (On a well-formed table, and for a topic that
  names no inherited member, the relay is as C1 says: \<open>publish_well_formed\<close> above.)
\<close>

theorem publish_throws_on_removed_subscriber:
  "subscribers_of (run peerA_removed host_manager) ''news'' = [''peerB'', ''peerA''] \<and>
   widgets (run peerA_removed host_manager) = [(''peerB'', interface_of 0 ''peerB'')] \<and>
   publish ''news'' ''d'' (run peerA_removed host_manager) =
     Inl (TypeError, run peerA_removed host_manager)"
  by code_simp

subsection \<open>C2: addWidget and widgets that are not initialized yet\<close>




subsection \<open>C3: the subscriber table\<close>

text \<open>
  C3. In every state the manager reaches, no url should be listed twice under a topic and
  every url listed should belong to an initialized widget (\<open>well_formed\<close>). The table is
  well formed once \<open>peerB\<close> and \<open>peerA\<close> have been initialized with the topic \<open>news\<close>.
  After \<open>peerA\<close> has called \<open>subscribe\<close> for \<open>news\<close>, the topic lists \<open>peerA\<close> twice;
  after \<open>removeWidget\<close> for \<open>peerA\<close> the topic still lists \<open>peerA\<close> once, while
  \<open>_widgets\<close> holds \<open>peerB\<close> alone. Neither table is well formed.
\<close>

theorem subscription_table_ill_formed:
  "well_formed (run both_active host_manager) \<and>
   subscribers (run subscribed_again host_manager) =
     [(''news'', [''peerB'', ''peerA'', ''peerA''])] \<and>
   \<not> well_formed (run subscribed_again host_manager) \<and>
   subscribers (run peerA_removed host_manager) = [(''news'', [''peerB'', ''peerA''])] \<and>
   map fst (widgets (run peerA_removed host_manager)) = [''peerB''] \<and>
   \<not> well_formed (run peerA_removed host_manager)"
  by code_simp

subsection \<open>C4: a successful handshake\<close>

text \<open>
  C4. When the response to \<open>initialize\<close> reports success with a list of topics, the
  widget should become active and be subscribed to every topic of the list. Here the
  response of \<open>peerA\<close> declares the topics \<open>news\<close> and \<open>constructor\<close>. The callback
  enters \<open>peerA\<close> in \<open>_widgets\<close> and then throws a TypeError in \<open>_subscribe\<close> for
  \<open>constructor\<close>, the topic the loop takes first: \<open>constructor in _subscribers\<close> holds
  for the inherited member, no array is made, and the member has no \<open>push\<close>. The topic
  \<open>news\<close> is never reached, so the table of subscribers stays empty. (For a list of
  topics none of which names an inherited member, \<open>handshake_success_plain_topics\<close> above
  shows that the widget is entered and subscribed to every topic.)
\<close>

theorem handshake_throws_on_inherited_topic:
  "initialize_callback (interface_of 0 ''peerA'') ''peerA'' (succeeded [''news'', ''constructor''])
     (run peerA_added host_manager) =
     Inl (TypeError,
          (run peerA_added host_manager)\<lparr>widgets := [(''peerA'', interface_of 0 ''peerA'')]\<rparr>) \<and>
   subscribers (run peerA_added host_manager) = []"
  by code_simp

subsection \<open>C5: listeners\<close>

text \<open>
  C5. When a handshake completes, the listener for that outcome should be called with the
  manager and the url. The host page here supplies listeners under the names
  \<open>onInitialized\<close>, \<open>onFailed\<close>, \<open>widgetinitialized\<close> and \<open>widgetfailed\<close>. After the
  handshake of \<open>peerA\<close> has succeeded the calls made by the manager are the construction
  of the interface and the \<open>initialize\<close> call; after it has failed, these two and
  \<open>destroy\<close>. No listener is called in either case: \<open>_raiseEvent\<close> reads the property
  \<open>event\<close> of \<open>config.listeners\<close>, whatever event it is given.
\<close>

theorem listeners_not_called:
  "config_listeners (config host_manager) =
     Some [(''onInitialized'', ''hostOnInitialized''), (''onFailed'', ''hostOnFailed''),
           (''widgetinitialized'', ''hostOnInitialized''), (''widgetfailed'', ''hostOnFailed'')] \<and>
   effects (run peerA_active host_manager) =
     [New_Interface (interface_of 0 ''peerA''),
      Remote_initialize (interface_of 0 ''peerA'') [(''hosturl'', ''http://host/'')]] \<and>
   effects (run peerA_failed host_manager) =
     [New_Interface (interface_of 0 ''peerA''),
      Remote_initialize (interface_of 0 ''peerA'') [(''hosturl'', ''http://host/'')],
      Destroy (interface_of 0 ''peerA'')]"
  by code_simp

subsection \<open>C6: broadcast\<close>

text \<open>
  C6. \<open>broadcast(data)\<close> should deliver to every initialized widget and never throw. With
  \<open>peerA\<close> initialized, \<open>broadcast\<close> throws a TypeError at the call of
  \<open>_widgets.hasOwnPropert\<close> in the first iteration and sends nothing; it returns normally
  only when \<open>_widgets\<close> is empty (\<open>broadcast_general\<close> above).
\<close>

theorem broadcast_throws:
  "widgets (run peerA_active host_manager) = [(''peerA'', interface_of 0 ''peerA'')] \<and>
   broadcast ''d'' (run peerA_active host_manager) =
     Inl (TypeError, run peerA_active host_manager)"
  by code_simp

subsection \<open>C7: removeWidget\<close>

text \<open>
  C7. \<open>removeWidget(url)\<close> on an initialized widget should leave the url under no topic.
  With \<open>peerA\<close> listed twice under \<open>news\<close> (it declared the topic and subscribed to it
  again), \<open>removeWidget\<close> returns normally and \<open>news\<close> still lists \<open>peerA\<close>: the inner
  loop stops at the first match. (On a well-formed table \<open>removeWidget_well_formed\<close>
  above shows that the url is left under no topic, the interface is destroyed and the
  entry in \<open>_widgets\<close> is deleted; \<open>removeWidget_unknown\<close> shows that a url that is
  not \<open>in _widgets\<close> changes nothing.)
\<close>

theorem removeWidget_leaves_subscription:
  "has_key ''peerA'' (widgets (run subscribed_again host_manager)) \<and>
   \<not> isl (removeWidget ''peerA'' (run subscribed_again host_manager)) \<and>
   subscribers_of (state_of (removeWidget ''peerA'' (run subscribed_again host_manager))) ''news'' =
     [''peerB'', ''peerA'']"
  by code_simp

subsection \<open>C8: the handshake response of the wrapper\<close>

text \<open>
  C8, as the code has it. The wrapper's answer to \<open>initialize\<close> is \<open>isInitialized: true\<close>
  together with \<open>config.subscriptions\<close>, the list its configuration was constructed
  with, whatever calls of \<open>subscribe\<close> the application made in its \<open>initialize\<close> callback
  or later. A call \<open>subscribe(x)\<close> made in the \<open>initialize\<close> callback is forwarded to the
  manager as the remote call \<open>subscribe(x)\<close> and changes nothing in the answer.
\<close>

theorem handshake_response_is_config_subscriptions:
  assumes "config_initialize cfg = Some calls" and "config_initialized cfg = Some calls'"
  shows "\<exists>w. Widget cfg = Inr w \<and>
           (App_subscribe x \<in> set calls) = (Host_subscribe x \<in> set (host_calls w)) \<and>
           (\<exists>w'. local_initialize st (app_run later w) =
                    Inr (\<lparr>isInitialized = True, subscriptions = config_subscriptions cfg\<rparr>, w'))"
  using assms
  by (simp add: Widget_def Let_def local_initialize_def wrapper_config_app_run host_calls_app_run)

text \<open>The theorem at a widget that subscribes to \<open>x\<close> in its \<open>initialize\<close> callback and to
  \<open>y\<close> afterwards, with no subscriptions in its configuration.\<close>

theorem handshake_response_is_config_subscriptions_witness:
  "config_initialize widget_x_config = Some [App_subscribe ''x''] \<and>
   config_initialized widget_x_config = Some [] \<and>
   Host_subscribe ''x'' \<in> set (host_calls widget_x) \<and>
   fst (projr (local_initialize [] (app_run [App_subscribe ''y''] widget_x))) =
     \<lparr>isInitialized = True, subscriptions = Some []\<rparr>"
proof -
  have i: "config_initialize widget_x_config = Some [App_subscribe ''x'']"
    and j: "config_initialized widget_x_config = Some []"
    and k: "config_subscriptions widget_x_config = Some []"
    by (simp_all add: widget_x_config_def)
  have w: "Widget widget_x_config = Inr widget_x" by code_simp
  from handshake_response_is_config_subscriptions [OF i j, of "''x''" "[]" "[App_subscribe ''y'']"]
    i j k w
  show ?thesis by auto
qed

text \<open>Against C8 as stated: the application subscribes to \<open>x\<close> in its \<open>initialize\<close>
  callback, and the answer to the handshake has an empty list of subscriptions.\<close>

theorem subscribe_in_initialize_not_in_response:
  "config_initialize widget_x_config = Some [App_subscribe ''x''] \<and>
   Widget widget_x_config = Inr widget_x \<and>
   local_initialize [] widget_x =
     Inr (\<lparr>isInitialized = True, subscriptions = Some []\<rparr>, widget_x)"
  by code_simp

subsection \<open>C9: send without a message handler\<close>

text \<open>
  C9. A \<open>send\<close> that arrives at a wrapper on which \<open>registerMessageHandler\<close> has never
  been called should be dropped without an error. The wrapper constructed here has no
  handler, and its local method \<open>send\<close> throws a TypeError: it calls
  \<open>_incomingMessageHandler\<close>, which is undefined.
\<close>

theorem send_without_handler_throws:
  "Widget widget_x_config = Inr widget_x \<and>
   incomingMessageHandler widget_x = None \<and>
   local_send '''' ''news'' ''d'' widget_x = Inl (TypeError, widget_x)"
  by code_simp

subsection \<open>C10: channel identifiers\<close>

text \<open>
  C10, as the code has it. Within one manager, whatever sequence of calls and callbacks
  it goes through, the counter \<open>_channelNr\<close> never decreases and never exceeds \<open>2^53\<close>.
  While it is below \<open>2^53\<close>, the interfaces constructed carry the channel identifiers
  \<open>widget0\<close>, \<open>widget1\<close>, ... in the order of construction, one for each value the
  counter has passed; and the first \<open>2^53 + 1\<close> interfaces a manager constructs have
  pairwise different identifiers, also when a url is added again after its handshake
  failed or after \<open>removeWidget\<close>. An \<open>addWidget\<close> whose url is \<open>in _widgets\<close> throws and
  constructs nothing; any other returns normally and constructs one interface, named
  after the counter, which then goes up by one unless it has reached \<open>2^53\<close>.
\<close>

theorem channel_identifiers_fresh:
  "channelNr (run evs (WidgetManager href body cfg)) \<le> counter_limit \<and>
   (channelNr (run evs (WidgetManager href body cfg)) < counter_limit \<longrightarrow>
      map channel (created (effects (run evs (WidgetManager href body cfg)))) =
        map (\<lambda>n. ''widget'' @ string_of_nat n)
          [0..<channelNr (run evs (WidgetManager href body cfg))]) \<and>
   distinct (take (Suc counter_limit)
     (map channel (created (effects (run evs (WidgetManager href body cfg)))))) \<and>
   channelNr (run evs (WidgetManager href body cfg))
     \<le> channelNr (run (evs @ evs') (WidgetManager href body cfg)) \<and>
   (js_in url (widgets s) \<longrightarrow>
      addWidget url wc s =
        Inl (Error ''A widget with this url has already been initialized'', s)) \<and>
   (\<not> js_in url (widgets s) \<and> channelNr s \<le> counter_limit \<longrightarrow>
      addWidget url wc s = Inr (priv_setUpWidget url wc s) \<and>
      map channel (created (effects (priv_setUpWidget url wc s))) =
        map channel (created (effects s)) @ [''widget'' @ string_of_nat (channelNr s)] \<and>
      channelNr (priv_setUpWidget url wc s) =
        (if channelNr s < counter_limit then Suc (channelNr s) else counter_limit))"
proof -
  let ?s = "run evs (WidgetManager href body cfg)"
  have n: "numbered ?s"
    by (rule numbered_run [OF numbered_WidgetManager])
  then have 1: "channelNr ?s \<le> counter_limit" by (simp add: numbered_def)
  have 2: "map channel (created (effects ?s)) =
      map (\<lambda>n. ''widget'' @ string_of_nat n) [0..<channelNr ?s]"
    if "channelNr ?s < counter_limit"
  proof -
    from n that have "length (created (effects ?s)) = channelNr ?s"
      by (simp add: numbered_def)
    with n show ?thesis by (simp add: numbered_def)
  qed
  note 3 = numbered_distinct [OF n]
  have 4: "channelNr ?s \<le> channelNr (run (evs @ evs') (WidgetManager href body cfg))"
    by (simp add: run_append channelNr_run)
  have 5: "addWidget url wc s =
      Inl (Error ''A widget with this url has already been initialized'', s)"
    if "js_in url (widgets s)"
    using that by (rule addWidget_throws)
  have 6: "addWidget url wc s = Inr (priv_setUpWidget url wc s) \<and>
      map channel (created (effects (priv_setUpWidget url wc s))) =
        map channel (created (effects s)) @ [''widget'' @ string_of_nat (channelNr s)] \<and>
      channelNr (priv_setUpWidget url wc s) =
        (if channelNr s < counter_limit then Suc (channelNr s) else counter_limit)"
    if "\<not> js_in url (widgets s)" and "channelNr s \<le> counter_limit"
    using addWidget_returns [OF that(1), of wc] that(2) by (auto simp add: js_increment_eq)
  from 1 2 3 4 5 6 show ?thesis by blast
qed

text \<open>The theorem at the manager with \<open>peerB\<close> and \<open>peerA\<close> initialized, to which
  \<open>peerC\<close> is added.\<close>

theorem channel_identifiers_fresh_witness:
  "channelNr (run both_active host_manager) < counter_limit \<and>
   map channel (created (effects (run both_active host_manager))) = [''widget0'', ''widget1''] \<and>
   \<not> js_in ''peerC'' (widgets (run both_active host_manager)) \<and>
   map channel (created (effects
     (priv_setUpWidget ''peerC'' no_container (run both_active host_manager)))) =
     [''widget0'', ''widget1'', ''widget2''] \<and>
   channelNr (priv_setUpWidget ''peerC'' no_container (run both_active host_manager)) = 3"
proof -
  let ?s = "run both_active host_manager"
  have c: "channelNr ?s = 2" by code_simp
  then have lt: "channelNr ?s < counter_limit" by (simp add: counter_limit_def)
  have j: "\<not> js_in ''peerC'' (widgets ?s)" by code_simp
  have names: "map (\<lambda>n. ''widget'' @ string_of_nat n) [0..<2] = [''widget0'', ''widget1'']"
    and two: "''widget'' @ string_of_nat 2 = ''widget2''"
    by code_simp+
  note t = channel_identifiers_fresh [of both_active "''http://host/''" "''body''" host_config
      "[]" "''peerC''" ?s no_container, folded host_manager_def]
  from lt have le: "channelNr ?s \<le> counter_limit" by simp
  from t lt have a0: "map channel (created (effects ?s)) =
      map (\<lambda>n. ''widget'' @ string_of_nat n) [0..<channelNr ?s]"
    by blast
  have a: "map channel (created (effects ?s)) = [''widget0'', ''widget1'']"
    unfolding a0 c by (rule names)
  from t j le have b0:
    "map channel (created (effects (priv_setUpWidget ''peerC'' no_container ?s))) =
       map channel (created (effects ?s)) @ [''widget'' @ string_of_nat (channelNr ?s)]"
    and c0: "channelNr (priv_setUpWidget ''peerC'' no_container ?s) =
       (if channelNr ?s < counter_limit then Suc (channelNr ?s) else counter_limit)"
    by blast+
  have b: "map channel (created (effects (priv_setUpWidget ''peerC'' no_container ?s))) =
      [''widget0'', ''widget1'', ''widget2'']"
    unfolding b0 a c two by simp
  from c0 lt c have "channelNr (priv_setUpWidget ''peerC'' no_container ?s) = 3" by simp
  with a b lt j show ?thesis by blast
qed

text \<open>Against C10 as stated: a manager whose \<open>addWidget\<close> has constructed \<open>2^53 + 2\<close>
  interfaces has used the identifier of the counter's limit twice.\<close>

theorem channel_identifier_repeats:
  "\<not> distinct (map channel (created (effects
      (run (replicate (counter_limit + 2) (AddWidget ''peerA'' no_container)) host_manager))))"
proof -
  let ?add = "AddWidget ''peerA'' no_container"
  let ?s0 = "run (replicate counter_limit ?add) host_manager"
  let ?s1 = "state_of (addWidget ''peerA'' no_container ?s0)"
  let ?s2 = "state_of (addWidget ''peerA'' no_container ?s1)"
  have w0: "\<not> js_in ''peerA'' (widgets host_manager)" by code_simp
  have c0: "channelNr host_manager = 0" by code_simp
  from addWidget_repeat [OF w0, of counter_limit no_container] c0
  have a: "\<not> js_in ''peerA'' (widgets ?s0)" and b: "channelNr ?s0 = counter_limit"
    by simp_all
  note 1 = addWidget_at_limit [OF a b, of no_container]
  from 1 have a1: "\<not> js_in ''peerA'' (widgets ?s1)" and b1: "channelNr ?s1 = counter_limit"
    by simp_all
  note 2 = addWidget_at_limit [OF a1 b1, of no_container]
  have r: "replicate (counter_limit + 2) ?add = replicate counter_limit ?add @ [?add, ?add]"
  proof -
    have "replicate (counter_limit + 2) ?add = replicate counter_limit ?add @ replicate 2 ?add"
      by (rule replicate_add)
    also have "replicate 2 ?add = [?add, ?add]" by (simp add: numeral_2_eq_2)
    finally show ?thesis .
  qed
  have "run (replicate (counter_limit + 2) ?add) host_manager = ?s2"
    by (simp only: r run_append run.simps fire.simps)
  moreover from 1 2 have "map channel (created (effects ?s2)) =
      map channel (created (effects ?s0)) @
      [''widget'' @ string_of_nat counter_limit, ''widget'' @ string_of_nat counter_limit]"
    by simp
  ultimately show ?thesis by simp
qed

end
